theory Spec2Isabelle
  imports Complex_Main
begin

section \<open>Shared vocabulary: errors, parameters, network elements\<close>

text \<open>
  Python raises \<^verbatim>\<open>KeyError\<close> when a dictionary is indexed at a key it does not hold.
  Every such raise of the two source files is a value of this type.
\<close>

datatype error = KeyError string

text \<open>
  The experimental parameters are a dictionary from parameter names to numbers.
  Python floats are idealised as reals.
\<close>

type_synonym params = "string \<rightharpoonup> real"

definition param :: "params \<Rightarrow> string \<Rightarrow> error + real" where
  "param params k = (case params k of None \<Rightarrow> Inl (KeyError k) | Some v \<Rightarrow> Inr v)"

type_synonym node = nat
type_synonym edge = "node \<times> node"

datatype element = Node node | Edge edge

text \<open>The bound methods that the two classes hand to their collaborators as event handlers.\<close>

datatype handler = InfectAsymptomatic | Infect | Symptoms | Remove | Observe

section \<open>The compartmented-model collaborator\<close>

text \<open>A locus is registered under a name and tracks nodes of one compartment or edges between two.\<close>

datatype locus = NodeLocus string | EdgeLocus string string

text \<open>
  The state of a compartmented model: what has been registered, the edges of the network
  (each undirected edge stored once, as a pair), the compartment of every node and the time at
  which an edge was marked occupied.
\<close>

record model =
  compartments :: "(string \<times> real) list"
  loci :: "(string \<times> locus) list"
  events :: "(string \<times> real \<times> handler) list"
  network :: "edge list"
  compartmentOf :: "node \<rightharpoonup> string"
  occupied :: "edge \<rightharpoonup> real"

text \<open>
  Modelled from the spec: \<^verbatim>\<open>CompartmentedModel.addCompartment\<close> is not among the source files.
  Section 6 of the specification: register a compartment with an initial occupancy probability.
\<close>

definition addCompartment :: "string \<Rightarrow> real \<Rightarrow> model \<Rightarrow> model" where
  "addCompartment c p self = self\<lparr>compartments := compartments self @ [(c, p)]\<rparr>"

text \<open>
  Modelled from the spec: \<^verbatim>\<open>CompartmentedModel.trackEdgesBetweenCompartments\<close> is not among the
  source files. Section 6: register a dynamic locus keyed by a predicate over two compartments
  (edge-shaped), here under the given name.
\<close>

definition trackEdgesBetweenCompartments :: "string \<Rightarrow> string \<Rightarrow> string \<Rightarrow> model \<Rightarrow> model" where
  "trackEdgesBetweenCompartments l r name self = self\<lparr>loci := loci self @ [(name, EdgeLocus l r)]\<rparr>"

text \<open>
  Modelled from the spec: \<^verbatim>\<open>CompartmentedModel.trackNodesInCompartment\<close> is not among the source
  files. Section 6: register a dynamic locus keyed by a predicate over one compartment
  (node-shaped); section 4.1 refers to such a locus by the name of its compartment.
\<close>

definition trackNodesInCompartment :: "string \<Rightarrow> model \<Rightarrow> model" where
  "trackNodesInCompartment c self = self\<lparr>loci := loci self @ [(c, NodeLocus c)]\<rparr>"

text \<open>
  Modelled from the spec: \<^verbatim>\<open>CompartmentedModel.addEventPerElement\<close> is not among the source
  files. Section 6: register a per-element stochastic event bound to a locus, a probability and
  a handler.
\<close>

definition addEventPerElement :: "string \<Rightarrow> real \<Rightarrow> handler \<Rightarrow> model \<Rightarrow> model" where
  "addEventPerElement l p h self = self\<lparr>events := events self @ [(l, p, h)]\<rparr>"

text \<open>
  Modelled from the spec: \<^verbatim>\<open>CompartmentedModel.changeCompartment\<close> is not among the source
  files. Section 4.1: the compartment-change operation updates the node's compartment label;
  locus membership is a synchronous consequence of the labels (see \<open>nodeInLocus\<close> and
  \<open>edgeInLocus\<close> below), so it needs no separate update.
\<close>

definition changeCompartment :: "node \<Rightarrow> string \<Rightarrow> model \<Rightarrow> model" where
  "changeCompartment n c self = self\<lparr>compartmentOf := (compartmentOf self)(n \<mapsto> c)\<rparr>"

text \<open>
  Modelled from the spec: \<^verbatim>\<open>CompartmentedModel.markOccupied\<close> is not among the source files.
  Section 6: mark an edge as occupied at a given time.
\<close>

definition markOccupied :: "edge \<Rightarrow> real \<Rightarrow> model \<Rightarrow> model" where
  "markOccupied e t self = self\<lparr>occupied := (occupied self)(e \<mapsto> t)\<rparr>"

text \<open>
  Modelled from the spec: the locus-maintenance engine is not among the source files.
  Section 3: a node locus holds all nodes currently in its compartment.
\<close>

definition nodeInLocus :: "model \<Rightarrow> string \<Rightarrow> node \<Rightarrow> bool" where
  "nodeInLocus self c n = (compartmentOf self n = Some c)"


section \<open>The SEIR model (\<^verbatim>\<open>seir_model.py\<close>)\<close>

subsection \<open>Class constants\<close>

definition P_EXPOSED :: string where
  "P_EXPOSED = ''epydemic.SEIR.pExposed''"

definition P_INFECT_ASYMPTOMATIC :: string where
  "P_INFECT_ASYMPTOMATIC = ''epydemic.SEIR.pInfectA''"

definition P_INFECT_SYMPTOMATIC :: string where
  "P_INFECT_SYMPTOMATIC = ''epydemic.SEIR.pInfect''"

definition P_SYMPTOMS :: string where
  "P_SYMPTOMS = ''epydemic.SEIR.pSymptoms''"

definition P_REMOVE :: string where
  "P_REMOVE = ''epydemic.SEIR.pRemove''"

definition SUSCEPTIBLE :: string where
  "SUSCEPTIBLE = ''epydemic.SEIR.S''"

definition EXPOSED :: string where
  "EXPOSED = ''epydemic.SEIR.E''"

definition INFECTED :: string where
  "INFECTED = ''epydemic.SEIR.I''"

definition REMOVED :: string where
  "REMOVED = ''epydemic.SEIR.R''"

definition SE :: string where
  "SE = ''epydemic.SEIR.SE''"

definition SI :: string where
  "SI = ''epydemic.SEIR.SI''"

subsection \<open>\<^verbatim>\<open>SEIR.build\<close>\<close>

text \<open>
  The parent's \<^verbatim>\<open>build\<close> is not among the source files; it is the parameter \<open>super_build\<close>.
  An exception it raises propagates; so does the \<^verbatim>\<open>KeyError\<close> of the first parameter that is
  missing, in the order in which the source reads them.
\<close>

definition SEIR_build :: "(params \<Rightarrow> model \<Rightarrow> error + model) \<Rightarrow> params \<Rightarrow> model \<Rightarrow> error + model" where
  "SEIR_build super_build params self =
     (case super_build params self of Inl err \<Rightarrow> Inl err | Inr s0 \<Rightarrow>
      case param params P_EXPOSED of Inl err \<Rightarrow> Inl err | Inr pExposed \<Rightarrow>
      case param params P_INFECT_ASYMPTOMATIC of Inl err \<Rightarrow> Inl err | Inr pInfectA \<Rightarrow>
      case param params P_INFECT_SYMPTOMATIC of Inl err \<Rightarrow> Inl err | Inr pInfect \<Rightarrow>
      case param params P_SYMPTOMS of Inl err \<Rightarrow> Inl err | Inr pSymptoms \<Rightarrow>
      case param params P_REMOVE of Inl err \<Rightarrow> Inl err | Inr pRemove \<Rightarrow>
        (let s1 = addCompartment SUSCEPTIBLE (1 - pExposed) s0;
             s2 = addCompartment EXPOSED pExposed s1;
             s3 = addCompartment INFECTED 0 s2;
             s4 = addCompartment REMOVED 0 s3;
             s5 = trackEdgesBetweenCompartments SUSCEPTIBLE EXPOSED SE s4;
             s6 = trackEdgesBetweenCompartments SUSCEPTIBLE INFECTED SI s5;
             s7 = trackNodesInCompartment EXPOSED s6;
             s8 = trackNodesInCompartment INFECTED s7;
             s9 = addEventPerElement SE pInfectA InfectAsymptomatic s8;
             s10 = addEventPerElement SI pInfect Infect s9;
             s11 = addEventPerElement EXPOSED pSymptoms Symptoms s10;
             s12 = addEventPerElement INFECTED pRemove Remove s11
         in Inr s12))"

subsection \<open>The transition handlers\<close>

definition infect :: "real \<Rightarrow> edge \<Rightarrow> model \<Rightarrow> model" where
  "infect t e self =
     (case e of (n, _) \<Rightarrow> markOccupied e t (changeCompartment n EXPOSED self))"

definition infectAsymptomatic :: "real \<Rightarrow> edge \<Rightarrow> model \<Rightarrow> model" where
  "infectAsymptomatic t e self = infect t e self"

definition symptoms :: "real \<Rightarrow> node \<Rightarrow> model \<Rightarrow> model" where
  "symptoms t n self = changeCompartment n INFECTED self"

definition remove :: "real \<Rightarrow> node \<Rightarrow> model \<Rightarrow> model" where
  "remove t n self = changeCompartment n REMOVED self"

section \<open>The scheduler collaborator\<close>

record repeating_event =
  start :: real
  interval :: real
  target :: "element option"
  action :: handler

text \<open>The part of the object that belongs to the parent class \<^verbatim>\<open>Process\<close>.\<close>

record process =
  repeating :: "repeating_event list"

text \<open>
  Modelled from the spec: \<^verbatim>\<open>Process.postRepeatingEvent\<close> is not among the source files.
  Section 6: schedule a repeating event at a time with a handler taking (time, element);
  the call carries a start time, an interval, an element and a handler, and nothing else.
\<close>

definition postRepeatingEvent :: "real \<Rightarrow> real \<Rightarrow> element option \<Rightarrow> handler \<Rightarrow> process \<Rightarrow> process" where
  "postRepeatingEvent t dt e ef p =
     p\<lparr>repeating := repeating p @ [\<lparr>start = t, interval = dt, target = e, action = ef\<rparr>]\<rparr>"

text \<open>
  Modelled from the spec: the scheduler is not among the source files. Section 4.2: a repeating
  event starts at its start time and recurs every interval, for the remaining duration of the
  run; it never expires on its own. Its \<open>k\<close>-th firing is therefore due at this time, for
  every \<open>k\<close>.
\<close>

definition firingTime :: "repeating_event \<Rightarrow> nat \<Rightarrow> real" where
  "firingTime ev k = start ev + real k * interval ev"

section \<open>The monitor (\<^verbatim>\<open>monitor.py\<close>)\<close>

subsection \<open>Class constants\<close>

definition DELTA :: string where
  "DELTA = ''time_delta''"

definition OBSERVATIONS :: string where
  "OBSERVATIONS = ''loci_observations''"

definition TIMESERIES :: string where
  "TIMESERIES = ''loci_timeseries''"

subsection \<open>State\<close>

text \<open>
  A sequence of the store is a Python list; it receives observation times and locus sizes.
\<close>

datatype sample = Time real | Size nat

type_synonym series = "string \<rightharpoonup> sample list"

text \<open>\<^verbatim>\<open>_timeSeries\<close> is \<^verbatim>\<open>None\<close> or a dictionary of sequences.\<close>

record monitor =
  base :: process
  timeSeries :: "series option"

text \<open>
  The loci of the process at the time of a call: what \<^verbatim>\<open>for l in self\<close> yields, in that order,
  each name with \<^verbatim>\<open>len(self[l])\<close>.
\<close>

type_synonym loci_sizes = "(string \<times> nat) list"

subsection \<open>\<^verbatim>\<open>Monitor.reset\<close>\<close>

text \<open>The parent's \<^verbatim>\<open>reset\<close> is not among the source files; it is the parameter \<open>super_reset\<close>.\<close>

definition Monitor_reset :: "(process \<Rightarrow> process) \<Rightarrow> monitor \<Rightarrow> monitor" where
  "Monitor_reset super_reset self = (self\<lparr>base := super_reset (base self)\<rparr>)\<lparr>timeSeries := None\<rparr>"

subsection \<open>\<^verbatim>\<open>Monitor.build\<close>\<close>

text \<open>The parent's \<^verbatim>\<open>build\<close> is not among the source files; it is the parameter \<open>super_build\<close>.\<close>

definition Monitor_build :: "(params \<Rightarrow> process \<Rightarrow> error + process) \<Rightarrow> params \<Rightarrow> monitor \<Rightarrow> error + monitor" where
  "Monitor_build super_build params self =
     (case super_build params (base self) of Inl err \<Rightarrow> Inl err | Inr p \<Rightarrow>
      case param params DELTA of Inl err \<Rightarrow> Inl err | Inr delta \<Rightarrow>
        Inr (self\<lparr>base := postRepeatingEvent 0 delta None Observe p\<rparr>))"

subsection \<open>\<^verbatim>\<open>Monitor.observe\<close>\<close>

text \<open>The first loop: one empty sequence per locus.\<close>

fun init_series :: "string list \<Rightarrow> series \<Rightarrow> series" where
  "init_series [] ts = ts"
| "init_series (l # ls) ts = init_series ls (ts(l \<mapsto> []))"

text \<open>
  The second loop: append each locus's size to its sequence. Indexing the store at a name it
  does not hold raises \<^verbatim>\<open>KeyError\<close>; the appends made before that stay.
\<close>

fun record_sizes :: "loci_sizes \<Rightarrow> series \<Rightarrow> error option \<times> series" where
  "record_sizes [] ts = (None, ts)"
| "record_sizes ((l, n) # ls) ts =
     (case ts l of
        None \<Rightarrow> (Some (KeyError l), ts)
      | Some xs \<Rightarrow> record_sizes ls (ts(l \<mapsto> xs @ [Size n])))"

text \<open>
  The result is the exception raised, if any, and the state the call leaves behind.
  The element \<open>e\<close> is ignored, as in the source.
\<close>

definition observe :: "real \<Rightarrow> element option \<Rightarrow> loci_sizes \<Rightarrow> monitor \<Rightarrow> error option \<times> monitor" where
  "observe t e ls self =
     (let ts0 = (case timeSeries self of
                   None \<Rightarrow> init_series (map fst ls) [OBSERVATIONS \<mapsto> []]
                 | Some ts \<Rightarrow> ts)
      in case ts0 OBSERVATIONS of
           None \<Rightarrow> (Some (KeyError OBSERVATIONS), self\<lparr>timeSeries := Some ts0\<rparr>)
         | Some stamps \<Rightarrow>
             (case record_sizes ls (ts0(OBSERVATIONS \<mapsto> stamps @ [Time t])) of
                (err, ts1) \<Rightarrow> (err, self\<lparr>timeSeries := Some ts1\<rparr>)))"

text \<open>
  The scheduler invokes the handler once per observation, each time with the current time and
  the loci of that moment; an exception ends the run.
\<close>

fun run_observations :: "(real \<times> loci_sizes) list \<Rightarrow> monitor \<Rightarrow> error option \<times> monitor" where
  "run_observations [] self = (None, self)"
| "run_observations ((t, ls) # rest) self =
     (case observe t None ls self of
        (Some err, self') \<Rightarrow> (Some err, self')
      | (None, self') \<Rightarrow> run_observations rest self')"

text \<open>The length of the sequence stored under a key, if there is one.\<close>

definition seriesLength :: "monitor \<Rightarrow> string \<Rightarrow> nat option" where
  "seriesLength self k =
     (case timeSeries self of None \<Rightarrow> None | Some ts \<Rightarrow> map_option length (ts k))"

text \<open>
  The store that \<open>N\<close> observations in lock-step leave: the times under the observation key
  and, under each locus name of \<open>L\<close>, the sizes of that locus, observation by observation.
\<close>

definition lockstep :: "string set \<Rightarrow> (real \<times> loci_sizes) list \<Rightarrow> series" where
  "lockstep L obs k =
     (if k = OBSERVATIONS then Some (map (\<lambda>(t, ls). Time t) obs)
      else if k \<in> L then Some (map (\<lambda>(t, ls). Size (the (map_of ls k))) obs)
      else None)"

subsection \<open>\<^verbatim>\<open>Monitor.results\<close>\<close>

text \<open>
  A value of the results dictionary: the monitor's store (\<^verbatim>\<open>None\<close> or a dictionary of
  sequences), or whatever another contributor put there.
\<close>

datatype 'v result = Series "series option" | Other 'v

type_synonym 'v results = "string \<rightharpoonup> 'v result"

text \<open>The parent's \<^verbatim>\<open>results\<close> is not among the source files; it is the parameter \<open>super_results\<close>.\<close>

definition Monitor_results :: "(process \<Rightarrow> 'v results) \<Rightarrow> monitor \<Rightarrow> 'v results" where
  "Monitor_results super_results self =
     (let rc = super_results (base self) in rc(TIMESERIES \<mapsto> Series (timeSeries self)))"

section \<open>Concrete inputs\<close>

text \<open>A parent \<^verbatim>\<open>build\<close> that returns without touching the state.\<close>

definition idle_build :: "params \<Rightarrow> 's \<Rightarrow> error + 's" where
  "idle_build params self = Inr self"

definition fresh_model :: model where
  "fresh_model = \<lparr>compartments = [], loci = [], events = [], network = [],
     compartmentOf = Map.empty, occupied = Map.empty\<rparr>"

text \<open>The parameters of the specification's example scenario.\<close>

definition example_params :: params where
  "example_params = map_of
     [(P_EXPOSED, 1 / 4), (P_INFECT_ASYMPTOMATIC, 1), (P_INFECT_SYMPTOMATIC, 1),
      (P_SYMPTOMS, 1), (P_REMOVE, 1), (DELTA, 1)]"

text \<open>
  Two neighbouring nodes: node 0 is exposed, node 1 is susceptible. The network stores their
  edge as \<open>(0, 1)\<close>; the SE locus hands it out as \<open>(1, 0)\<close>.
\<close>

definition exposed_first :: model where
  "exposed_first = fresh_model\<lparr>network := [(0, 1)],
     compartmentOf := [0 \<mapsto> EXPOSED, 1 \<mapsto> SUSCEPTIBLE]\<rparr>"

text \<open>A parent \<^verbatim>\<open>reset\<close> that leaves the parent's part of the state as it is.\<close>

definition idle_reset :: "process \<Rightarrow> process" where
  "idle_reset p = p"

text \<open>A parent \<^verbatim>\<open>results\<close> that contributes a single entry.\<close>

definition parent_results :: "process \<Rightarrow> nat results" where
  "parent_results p = [''events'' \<mapsto> Other (length (repeating p))]"

definition fresh_monitor :: monitor where
  "fresh_monitor = \<lparr>base = \<lparr>repeating = []\<rparr>, timeSeries = None\<rparr>"

text \<open>A monitor that has been reset and has made two observations of the loci SE and EXPOSED.\<close>

definition observed_monitor :: monitor where
  "observed_monitor = snd (run_observations
     [(0, [(SE, 2), (EXPOSED, 1)]), (1, [(SE, 1), (EXPOSED, 2)])]
     (Monitor_reset idle_reset fresh_monitor))"

text \<open>A parent \<^verbatim>\<open>results\<close> that already binds the time-series key.\<close>

definition clashing_results :: "process \<Rightarrow> nat results" where
  "clashing_results p = [TIMESERIES \<mapsto> Other 7, ''events'' \<mapsto> Other (length (repeating p))]"

section \<open>Properties of the SEIR model\<close>

lemmas SEIR_names =
  P_EXPOSED_def P_INFECT_ASYMPTOMATIC_def P_INFECT_SYMPTOMATIC_def P_SYMPTOMS_def P_REMOVE_def
  SUSCEPTIBLE_def EXPOSED_def INFECTED_def REMOVED_def SE_def SI_def

lemmas collaborator_defs =
  addCompartment_def trackEdgesBetweenCompartments_def trackNodesInCompartment_def
  addEventPerElement_def changeCompartment_def markOccupied_def

lemma SEIR_build_result:
  assumes "super_build params self = Inr s0"
    and "params P_EXPOSED = Some pExposed"
    and "params P_INFECT_ASYMPTOMATIC = Some pInfectA"
    and "params P_INFECT_SYMPTOMATIC = Some pInfect"
    and "params P_SYMPTOMS = Some pSymptoms"
    and "params P_REMOVE = Some pRemove"
  shows "SEIR_build super_build params self = Inr (s0\<lparr>
      compartments := compartments s0 @
        [(SUSCEPTIBLE, 1 - pExposed), (EXPOSED, pExposed), (INFECTED, 0), (REMOVED, 0)],
      loci := loci s0 @
        [(SE, EdgeLocus SUSCEPTIBLE EXPOSED), (SI, EdgeLocus SUSCEPTIBLE INFECTED),
         (EXPOSED, NodeLocus EXPOSED), (INFECTED, NodeLocus INFECTED)],
      events := events s0 @
        [(SE, pInfectA, InfectAsymptomatic), (SI, pInfect, Infect),
         (EXPOSED, pSymptoms, Symptoms), (INFECTED, pRemove, Remove)]\<rparr>)"
  using assms by (simp add: SEIR_build_def param_def collaborator_defs)

text \<open>
  C5. For every parameter mapping that holds the five SEIR parameters, \<^verbatim>\<open>SEIR.build\<close> (its
  parent's build having returned) registers exactly four compartments, after those the parent
  left: SUSCEPTIBLE with probability \<open>1 - pExposed\<close>, EXPOSED with \<open>pExposed\<close>, INFECTED with 0
  and REMOVED with 0. The four names differ and the four probabilities sum to 1.
\<close>

theorem SEIR_build_compartments:
  assumes "super_build params self = Inr s0"
    and "params P_EXPOSED = Some pExposed"
    and "params P_INFECT_ASYMPTOMATIC = Some pInfectA"
    and "params P_INFECT_SYMPTOMATIC = Some pInfect"
    and "params P_SYMPTOMS = Some pSymptoms"
    and "params P_REMOVE = Some pRemove"
  shows "\<exists>s. SEIR_build super_build params self = Inr s \<and>
      compartments s = compartments s0 @
        [(SUSCEPTIBLE, 1 - pExposed), (EXPOSED, pExposed), (INFECTED, 0), (REMOVED, 0)] \<and>
      distinct (map fst (drop (length (compartments s0)) (compartments s))) \<and>
      sum_list (map snd (drop (length (compartments s0)) (compartments s))) = 1"
  using SEIR_build_result [where super_build = super_build and params = params, OF assms]
  by (simp add: SEIR_names)

theorem SEIR_build_compartments_witness:
  "\<exists>s. SEIR_build idle_build example_params fresh_model = Inr s \<and>
      compartments s = [(SUSCEPTIBLE, 3 / 4), (EXPOSED, 1 / 4), (INFECTED, 0), (REMOVED, 0)] \<and>
      distinct (map fst (compartments s)) \<and>
      sum_list (map snd (compartments s)) = 1"
  using SEIR_build_compartments [of idle_build example_params fresh_model fresh_model "1 / 4" 1 1 1 1]
  by (simp add: idle_build_def example_params_def fresh_model_def SEIR_names)

text \<open>
  C6. \<^verbatim>\<open>SEIR.build\<close> registers, after what the parent left, the edge locus SE between SUSCEPTIBLE
  and EXPOSED, the edge locus SI between SUSCEPTIBLE and INFECTED, the node loci EXPOSED and
  INFECTED, and exactly four per-element event rules: SE with \<open>pInfectA\<close> to
  \<open>infectAsymptomatic\<close>, SI with \<open>pInfect\<close> to \<open>infect\<close>, EXPOSED with \<open>pSymptoms\<close> to
  \<open>symptoms\<close>, INFECTED with \<open>pRemove\<close> to \<open>remove\<close>.
\<close>

theorem SEIR_build_loci_and_events:
  assumes "super_build params self = Inr s0"
    and "params P_EXPOSED = Some pExposed"
    and "params P_INFECT_ASYMPTOMATIC = Some pInfectA"
    and "params P_INFECT_SYMPTOMATIC = Some pInfect"
    and "params P_SYMPTOMS = Some pSymptoms"
    and "params P_REMOVE = Some pRemove"
  shows "\<exists>s. SEIR_build super_build params self = Inr s \<and>
      loci s = loci s0 @
        [(SE, EdgeLocus SUSCEPTIBLE EXPOSED), (SI, EdgeLocus SUSCEPTIBLE INFECTED),
         (EXPOSED, NodeLocus EXPOSED), (INFECTED, NodeLocus INFECTED)] \<and>
      events s = events s0 @
        [(SE, pInfectA, InfectAsymptomatic), (SI, pInfect, Infect),
         (EXPOSED, pSymptoms, Symptoms), (INFECTED, pRemove, Remove)]"
  using SEIR_build_result [where super_build = super_build and params = params, OF assms]
  by simp

theorem SEIR_build_loci_and_events_witness:
  "\<exists>s. SEIR_build idle_build example_params fresh_model = Inr s \<and>
      loci s =
        [(SE, EdgeLocus SUSCEPTIBLE EXPOSED), (SI, EdgeLocus SUSCEPTIBLE INFECTED),
         (EXPOSED, NodeLocus EXPOSED), (INFECTED, NodeLocus INFECTED)] \<and>
      events s =
        [(SE, 1, InfectAsymptomatic), (SI, 1, Infect),
         (EXPOSED, 1, Symptoms), (INFECTED, 1, Remove)]"
  using SEIR_build_loci_and_events [of idle_build example_params fresh_model fresh_model "1 / 4" 1 1 1 1]
  by (simp add: idle_build_def example_params_def fresh_model_def SEIR_names)

text \<open>
  C4. For every time and every edge, \<^verbatim>\<open>SEIR.infectAsymptomatic\<close> leaves the model in exactly the
  state in which \<^verbatim>\<open>SEIR.infect\<close> leaves it.
\<close>

theorem infectAsymptomatic_is_infect:
  "infectAsymptomatic t e self = infect t e self"
  by (simp add: infectAsymptomatic_def)

text \<open>
  C7. For every node \<open>n\<close> and time \<open>t\<close>: after \<^verbatim>\<open>SEIR.symptoms\<close> the node is in INFECTED and no
  longer in the EXPOSED locus; after \<^verbatim>\<open>SEIR.remove\<close> it is in REMOVED and no longer in the
  INFECTED locus. Neither handler changes the compartment of another node, the occupied edges,
  the network, or the registered compartments, loci and event rules.
\<close>

theorem symptoms_remove_effect:
  "compartmentOf (symptoms t n self) n = Some INFECTED \<and>
   \<not> nodeInLocus (symptoms t n self) EXPOSED n \<and>
   (\<forall>k. k \<noteq> n \<longrightarrow> compartmentOf (symptoms t n self) k = compartmentOf self k) \<and>
   occupied (symptoms t n self) = occupied self \<and>
   compartments (symptoms t n self) = compartments self \<and>
   loci (symptoms t n self) = loci self \<and>
   events (symptoms t n self) = events self \<and>
   network (symptoms t n self) = network self \<and>
   compartmentOf (remove t n self) n = Some REMOVED \<and>
   \<not> nodeInLocus (remove t n self) INFECTED n \<and>
   (\<forall>k. k \<noteq> n \<longrightarrow> compartmentOf (remove t n self) k = compartmentOf self k) \<and>
   occupied (remove t n self) = occupied self \<and>
   compartments (remove t n self) = compartments self \<and>
   loci (remove t n self) = loci self \<and>
   events (remove t n self) = events self \<and>
   network (remove t n self) = network self"
  by (simp add: symptoms_def remove_def changeCompartment_def nodeInLocus_def SEIR_names)

theorem symptoms_remove_effect_witness:
  "nodeInLocus exposed_first EXPOSED 0 \<and>
   compartmentOf (symptoms 1 0 exposed_first) 0 = Some INFECTED \<and>
   \<not> nodeInLocus (symptoms 1 0 exposed_first) EXPOSED 0 \<and>
   compartmentOf (symptoms 1 0 exposed_first) 1 = Some SUSCEPTIBLE \<and>
   nodeInLocus (symptoms 1 0 exposed_first) INFECTED 0 \<and>
   compartmentOf (remove 2 0 (symptoms 1 0 exposed_first)) 0 = Some REMOVED \<and>
   \<not> nodeInLocus (remove 2 0 (symptoms 1 0 exposed_first)) INFECTED 0 \<and>
   compartmentOf (remove 2 0 (symptoms 1 0 exposed_first)) 1 = Some SUSCEPTIBLE"
proof -
  note first = symptoms_remove_effect [of 1 0 exposed_first]
  note second = symptoms_remove_effect [of 2 0 "symptoms 1 0 exposed_first"]
  have start: "compartmentOf exposed_first 0 = Some EXPOSED"
    "compartmentOf exposed_first 1 = Some SUSCEPTIBLE"
    by (simp_all add: exposed_first_def fresh_model_def)
  have other: "compartmentOf (symptoms 1 0 exposed_first) 1 = compartmentOf exposed_first 1"
    using first by blast
  have other': "compartmentOf (remove 2 0 (symptoms 1 0 exposed_first)) 1 =
      compartmentOf (symptoms 1 0 exposed_first) 1"
    using second by blast
  from first second start other other' show ?thesis
    by (simp add: nodeInLocus_def SEIR_names)
qed



section \<open>Properties of the monitor\<close>

subsection \<open>The store under \<^verbatim>\<open>observe\<close>\<close>

lemma init_series_apply: "init_series ls ts k = (if k \<in> set ls then Some [] else ts k)"
  by (induction ls arbitrary: ts) auto

lemma record_sizes_dom: "dom (snd (record_sizes ls ts)) = dom ts"
proof (induction ls arbitrary: ts)
  case Nil
  show ?case by simp
next
  case (Cons a ls)
  obtain l n where a: "a = (l, n)" by (cases a)
  show ?case
  proof (cases "ts l")
    case None
    with a show ?thesis by simp
  next
    case (Some xs)
    have "record_sizes (a # ls) ts = record_sizes ls (ts(l \<mapsto> xs @ [Size n]))"
      using a Some by simp
    moreover have "dom (snd (record_sizes ls (ts(l \<mapsto> xs @ [Size n])))) =
        dom (ts(l \<mapsto> xs @ [Size n]))"
      by (rule Cons.IH)
    moreover from Some have "dom (ts(l \<mapsto> xs @ [Size n])) = dom ts" by auto
    ultimately show ?thesis by simp
  qed
qed

lemma record_sizes_raises:
  "\<not> set (map fst ls) \<subseteq> dom ts \<Longrightarrow> fst (record_sizes ls ts) \<noteq> None"
proof (induction ls arbitrary: ts)
  case Nil
  then show ?case by simp
next
  case (Cons a ls)
  obtain l n where a: "a = (l, n)" by (cases a)
  show ?case
  proof (cases "ts l")
    case None
    with a show ?thesis by simp
  next
    case (Some xs)
    then have d: "dom (ts(l \<mapsto> xs @ [Size n])) = dom ts" by auto
    from Some have "l \<in> dom ts" by auto
    with Cons.prems a have "\<not> set (map fst ls) \<subseteq> dom ts" by auto
    with d have "\<not> set (map fst ls) \<subseteq> dom (ts(l \<mapsto> xs @ [Size n]))" by simp
    then have "fst (record_sizes ls (ts(l \<mapsto> xs @ [Size n]))) \<noteq> None"
      by (rule Cons.IH)
    moreover have "record_sizes (a # ls) ts = record_sizes ls (ts(l \<mapsto> xs @ [Size n]))"
      using a Some by simp
    ultimately show ?thesis by simp
  qed
qed

lemma record_sizes_ok:
  "distinct (map fst ls) \<Longrightarrow> set (map fst ls) \<subseteq> dom ts \<Longrightarrow>
   record_sizes ls ts =
     (None, \<lambda>k. case map_of ls k of None \<Rightarrow> ts k | Some n \<Rightarrow> Some (the (ts k) @ [Size n]))"
proof (induction ls arbitrary: ts)
  case Nil
  show ?case by simp
next
  case (Cons a ls)
  obtain l n where a: "a = (l, n)" by (cases a)
  from Cons.prems a obtain xs where xs: "ts l = Some xs" by auto
  from Cons.prems a have fresh: "map_of ls l = None"
    by (simp add: map_of_eq_None_iff)
  from Cons.prems a have "distinct (map fst ls)"
    and "set (map fst ls) \<subseteq> dom (ts(l \<mapsto> xs @ [Size n]))" by auto
  then have "record_sizes ls (ts(l \<mapsto> xs @ [Size n])) =
      (None, \<lambda>k. case map_of ls k of None \<Rightarrow> (ts(l \<mapsto> xs @ [Size n])) k
         | Some m \<Rightarrow> Some (the ((ts(l \<mapsto> xs @ [Size n])) k) @ [Size m]))"
    by (rule Cons.IH)
  moreover have "record_sizes (a # ls) ts = record_sizes ls (ts(l \<mapsto> xs @ [Size n]))"
    using a xs by simp
  moreover have "(\<lambda>k. case map_of ls k of None \<Rightarrow> (ts(l \<mapsto> xs @ [Size n])) k
         | Some m \<Rightarrow> Some (the ((ts(l \<mapsto> xs @ [Size n])) k) @ [Size m])) =
      (\<lambda>k. case map_of (a # ls) k of None \<Rightarrow> ts k | Some m \<Rightarrow> Some (the (ts k) @ [Size m]))"
    using a xs fresh by (auto simp add: fun_eq_iff split: option.splits)
  ultimately show ?case by simp
qed

lemma observe_dom:
  assumes "timeSeries self = Some ts"
  shows "\<exists>ts'. timeSeries (snd (observe t e ls self)) = Some ts' \<and> dom ts' = dom ts"
proof (cases "ts OBSERVATIONS")
  case None
  with assms show ?thesis by (simp add: observe_def)
next
  case (Some stamps)
  let ?ts0 = "ts(OBSERVATIONS \<mapsto> stamps @ [Time t])"
  from Some have "dom ?ts0 = dom ts" by auto
  moreover have "dom (snd (record_sizes ls ?ts0)) = dom ?ts0"
    by (rule record_sizes_dom)
  moreover have "timeSeries (snd (observe t e ls self)) = Some (snd (record_sizes ls ?ts0))"
    using assms Some by (simp add: observe_def split: prod.splits)
  ultimately show ?thesis by simp
qed

lemma observe_raises:
  assumes "timeSeries self = Some ts" and "\<not> set (map fst ls) \<subseteq> dom ts"
  shows "fst (observe t e ls self) \<noteq> None"
proof (cases "ts OBSERVATIONS")
  case None
  with assms show ?thesis by (simp add: observe_def)
next
  case (Some stamps)
  let ?ts0 = "ts(OBSERVATIONS \<mapsto> stamps @ [Time t])"
  from Some have "dom ?ts0 = dom ts" by auto
  with assms(2) have "\<not> set (map fst ls) \<subseteq> dom ?ts0" by simp
  then have "fst (record_sizes ls ?ts0) \<noteq> None" by (rule record_sizes_raises)
  moreover have "fst (observe t e ls self) = fst (record_sizes ls ?ts0)"
    using assms Some by (simp add: observe_def split: prod.splits)
  ultimately show ?thesis by simp
qed

lemma run_observations_dom:
  "timeSeries self = Some ts \<Longrightarrow>
   \<exists>ts'. timeSeries (snd (run_observations obs self)) = Some ts' \<and> dom ts' = dom ts"
proof (induction obs arbitrary: self ts)
  case Nil
  then show ?case by simp
next
  case (Cons a obs)
  obtain t ls where a: "a = (t, ls)" by (cases a)
  obtain err self' where step: "observe t None ls self = (err, self')"
    by (cases "observe t None ls self")
  from observe_dom [OF Cons.prems, of t None ls] step
  obtain ts' where ts': "timeSeries self' = Some ts'" "dom ts' = dom ts" by auto
  show ?case
  proof (cases err)
    case None
    from Cons.IH [OF ts'(1)] ts'(2) a step None show ?thesis by simp
  next
    case (Some x)
    with a step ts' show ?thesis by simp
  qed
qed

lemma observe_first:
  assumes "timeSeries self = None" and "distinct (map fst ls)"
    and "OBSERVATIONS \<notin> set (map fst ls)"
  shows "observe t e ls self =
    (None, self\<lparr>timeSeries := Some (lockstep (set (map fst ls)) [(t, ls)])\<rparr>)"
proof -
  let ?ts0 = "init_series (map fst ls) [OBSERVATIONS \<mapsto> []]"
  let ?ts1 = "?ts0(OBSERVATIONS \<mapsto> [Time t])"
  have obs: "?ts0 OBSERVATIONS = Some []"
    using assms(3) by (simp add: init_series_apply)
  have "set (map fst ls) \<subseteq> dom ?ts1"
    by (force simp add: init_series_apply)
  with assms(2) have rec: "record_sizes ls ?ts1 =
      (None, \<lambda>k. case map_of ls k of None \<Rightarrow> ?ts1 k | Some n \<Rightarrow> Some (the (?ts1 k) @ [Size n]))"
    by (rule record_sizes_ok)
  have "(\<lambda>k. case map_of ls k of None \<Rightarrow> ?ts1 k | Some n \<Rightarrow> Some (the (?ts1 k) @ [Size n])) =
      lockstep (set (map fst ls)) [(t, ls)]"
  proof
    fix k
    show "(case map_of ls k of None \<Rightarrow> ?ts1 k | Some n \<Rightarrow> Some (the (?ts1 k) @ [Size n])) =
      lockstep (set (map fst ls)) [(t, ls)] k"
    proof (cases "map_of ls k")
      case None
      then have "k \<notin> set (map fst ls)" by (simp add: map_of_eq_None_iff)
      with None show ?thesis by (simp add: lockstep_def init_series_apply)
    next
      case (Some n)
      then have mem: "k \<in> set (map fst ls)"
        by (metis map_of_eq_None_iff option.distinct(1) set_map)
      with assms(3) have "k \<noteq> OBSERVATIONS" by blast
      with Some mem show ?thesis by (simp add: lockstep_def init_series_apply)
    qed
  qed
  with rec have "record_sizes ls ?ts1 = (None, lockstep (set (map fst ls)) [(t, ls)])" by simp
  with assms(1) obs show ?thesis by (simp add: observe_def)
qed

lemma observe_step:
  assumes "timeSeries self = Some (lockstep L pre)" and "distinct (map fst ls)"
    and "set (map fst ls) = L" and "OBSERVATIONS \<notin> L"
  shows "observe t e ls self =
    (None, self\<lparr>timeSeries := Some (lockstep L (pre @ [(t, ls)]))\<rparr>)"
proof -
  let ?ts = "lockstep L pre"
  let ?ts1 = "?ts(OBSERVATIONS \<mapsto> map (\<lambda>(t, ls). Time t) pre @ [Time t])"
  have obs: "?ts OBSERVATIONS = Some (map (\<lambda>(t, ls). Time t) pre)"
    by (simp add: lockstep_def)
  have "set (map fst ls) \<subseteq> dom ?ts1"
    using assms(3) by (force simp add: lockstep_def)
  with assms(2) have rec: "record_sizes ls ?ts1 =
      (None, \<lambda>k. case map_of ls k of None \<Rightarrow> ?ts1 k | Some n \<Rightarrow> Some (the (?ts1 k) @ [Size n]))"
    by (rule record_sizes_ok)
  have "(\<lambda>k. case map_of ls k of None \<Rightarrow> ?ts1 k | Some n \<Rightarrow> Some (the (?ts1 k) @ [Size n])) =
      lockstep L (pre @ [(t, ls)])"
  proof
    fix k
    show "(case map_of ls k of None \<Rightarrow> ?ts1 k | Some n \<Rightarrow> Some (the (?ts1 k) @ [Size n])) =
      lockstep L (pre @ [(t, ls)]) k"
    proof (cases "map_of ls k")
      case None
      then have "k \<notin> L" using assms(3) by (simp add: map_of_eq_None_iff)
      with None show ?thesis by (simp add: lockstep_def)
    next
      case (Some n)
      then have mem: "k \<in> L"
        using assms(3) by (metis map_of_eq_None_iff option.distinct(1) set_map)
      with assms(4) have "k \<noteq> OBSERVATIONS" by blast
      with Some mem show ?thesis by (simp add: lockstep_def)
    qed
  qed
  with rec have "record_sizes ls ?ts1 = (None, lockstep L (pre @ [(t, ls)]))" by simp
  with assms(1) obs show ?thesis by (simp add: observe_def)
qed

lemma run_observations_step:
  assumes "OBSERVATIONS \<notin> L"
  shows "timeSeries self = Some (lockstep L pre) \<Longrightarrow>
    \<forall>(t, ls) \<in> set obs. distinct (map fst ls) \<and> set (map fst ls) = L \<Longrightarrow>
    run_observations obs self = (None, self\<lparr>timeSeries := Some (lockstep L (pre @ obs))\<rparr>)"
proof (induction obs arbitrary: self pre)
  case Nil
  then show ?case by simp
next
  case (Cons a obs)
  obtain t ls where a: "a = (t, ls)" by (cases a)
  let ?self' = "self\<lparr>timeSeries := Some (lockstep L (pre @ [(t, ls)]))\<rparr>"
  from Cons.prems(2) a have wf: "distinct (map fst ls)" "set (map fst ls) = L"
    and rest: "\<forall>(t, ls) \<in> set obs. distinct (map fst ls) \<and> set (map fst ls) = L" by auto
  have step: "observe t None ls self = (None, ?self')"
    using Cons.prems(1) wf assms by (rule observe_step)
  have "timeSeries ?self' = Some (lockstep L (pre @ [(t, ls)]))" by simp
  from Cons.IH [OF this rest] a step show ?case by simp
qed

subsection \<open>Claims\<close>

text \<open>
  C3, as the specification words it, fails: when a tracked locus bears the name of the
  observation-times key, times and sizes land in one and the same sequence. After a reset
  and a single observation of the one locus \<^verbatim>\<open>loci_observations\<close> (of size 3), that sequence
  has length 2, not 1.
\<close>

theorem observe_locus_named_observations_counterexample:
  "fst (run_observations [(0, [(OBSERVATIONS, 3)])] (Monitor_reset idle_reset fresh_monitor)) = None \<and>
   timeSeries (snd (run_observations [(0, [(OBSERVATIONS, 3)])] (Monitor_reset idle_reset fresh_monitor))) =
     Some [OBSERVATIONS \<mapsto> [Time 0, Size 3]] \<and>
   seriesLength (snd (run_observations [(0, [(OBSERVATIONS, 3)])] (Monitor_reset idle_reset fresh_monitor)))
     OBSERVATIONS = Some 2 \<and>
   seriesLength (snd (run_observations [(0, [(OBSERVATIONS, 3)])] (Monitor_reset idle_reset fresh_monitor)))
     OBSERVATIONS \<noteq> Some (length [(0 :: real, [(OBSERVATIONS, 3 :: nat)])])"
  by (simp add: observe_def Monitor_reset_def idle_reset_def fresh_monitor_def seriesLength_def)

text \<open>
  C3, amended. Take \<open>N \<ge> 1\<close> invocations of \<^verbatim>\<open>Monitor.observe\<close> after a reset, during which
  the set \<open>L\<close> of tracked locus names does not change and no locus is named by the
  observation-times key. Then no invocation raises, and the store holds exactly the
  observation-times sequence and one sequence per locus of \<open>L\<close>; each has length \<open>N\<close>; the
  \<open>i\<close>-th time and the \<open>i\<close>-th size of every locus are those of the \<open>i\<close>-th invocation. Whatever
  is observed later, the store never gains a key: a locus created after the first observation
  has no sequence, none is made for it, and the next observation that meets it raises.
\<close>

theorem observe_lockstep:
  assumes "obs \<noteq> []"
    and "\<forall>(t, ls) \<in> set obs. distinct (map fst ls) \<and> set (map fst ls) = L"
    and "OBSERVATIONS \<notin> L"
  shows "\<exists>ts. run_observations obs (Monitor_reset super_reset self) =
        (None, (Monitor_reset super_reset self)\<lparr>timeSeries := Some ts\<rparr>) \<and>
      dom ts = insert OBSERVATIONS L \<and>
      (\<forall>k \<in> dom ts. length (the (ts k)) = length obs) \<and>
      ts OBSERVATIONS = Some (map (\<lambda>(t, ls). Time t) obs) \<and>
      (\<forall>l \<in> L. ts l = Some (map (\<lambda>(t, ls). Size (the (map_of ls l))) obs)) \<and>
      (\<forall>later. \<exists>ts'.
         timeSeries (snd (run_observations later
           ((Monitor_reset super_reset self)\<lparr>timeSeries := Some ts\<rparr>))) = Some ts' \<and>
         dom ts' = dom ts) \<and>
      (\<forall>t e ls. \<not> set (map fst ls) \<subseteq> dom ts \<longrightarrow>
         fst (observe t e ls ((Monitor_reset super_reset self)\<lparr>timeSeries := Some ts\<rparr>)) \<noteq> None)"
proof -
  let ?init = "Monitor_reset super_reset self"
  let ?ts = "lockstep L obs"
  let ?final = "?init\<lparr>timeSeries := Some ?ts\<rparr>"
  from assms(1) obtain t ls rest where obs: "obs = (t, ls) # rest"
    by (cases obs) auto
  from assms(2) obs have wf: "distinct (map fst ls)" "set (map fst ls) = L"
    and rest: "\<forall>(t, ls) \<in> set rest. distinct (map fst ls) \<and> set (map fst ls) = L"
    by auto
  have unset: "timeSeries ?init = None"
    by (simp add: Monitor_reset_def)
  from wf(2) assms(3) have "OBSERVATIONS \<notin> set (map fst ls)" by blast
  with unset wf(1) have "observe t None ls ?init =
      (None, ?init\<lparr>timeSeries := Some (lockstep (set (map fst ls)) [(t, ls)])\<rparr>)"
    by (rule observe_first)
  with wf(2) have first: "observe t None ls ?init =
      (None, ?init\<lparr>timeSeries := Some (lockstep L [(t, ls)])\<rparr>)"
    by simp
  have "timeSeries (?init\<lparr>timeSeries := Some (lockstep L [(t, ls)])\<rparr>) = Some (lockstep L [(t, ls)])"
    by simp
  from run_observations_step [OF assms(3) this rest] first obs
  have run: "run_observations obs ?init = (None, ?final)" by simp
  have d: "dom ?ts = insert OBSERVATIONS L"
    by (auto simp add: lockstep_def dom_def)
  have len: "\<forall>k \<in> dom ?ts. length (the (?ts k)) = length obs"
    by (auto simp add: lockstep_def dom_def)
  have times: "?ts OBSERVATIONS = Some (map (\<lambda>(t, ls). Time t) obs)"
    by (simp add: lockstep_def)
  have sizes: "\<forall>l \<in> L. ?ts l = Some (map (\<lambda>(t, ls). Size (the (map_of ls l))) obs)"
    using assms(3) by (auto simp add: lockstep_def)
  have stored: "timeSeries ?final = Some ?ts" by simp
  have later: "\<forall>later. \<exists>ts'.
      timeSeries (snd (run_observations later ?final)) = Some ts' \<and> dom ts' = dom ?ts"
    using run_observations_dom [OF stored] by blast
  have raises: "\<forall>t e ls. \<not> set (map fst ls) \<subseteq> dom ?ts \<longrightarrow> fst (observe t e ls ?final) \<noteq> None"
    using observe_raises [OF stored] by blast
  from run d len times sizes later raises show ?thesis by blast
qed

theorem observe_lockstep_witness:
  "\<exists>ts. run_observations [(0, [(SE, 2), (EXPOSED, 1)]), (1, [(EXPOSED, 2), (SE, 1)])]
          (Monitor_reset idle_reset fresh_monitor) =
        (None, (Monitor_reset idle_reset fresh_monitor)\<lparr>timeSeries := Some ts\<rparr>) \<and>
      dom ts = {OBSERVATIONS, SE, EXPOSED} \<and>
      ts OBSERVATIONS = Some [Time 0, Time 1] \<and>
      ts SE = Some [Size 2, Size 1] \<and>
      ts EXPOSED = Some [Size 1, Size 2] \<and>
      ts SI = None"
proof -
  let ?obs = "[(0 :: real, [(SE, 2 :: nat), (EXPOSED, 1)]), (1, [(EXPOSED, 2), (SE, 1)])]"
  have nonempty: "?obs \<noteq> []" by simp
  have same: "\<forall>(t, ls) \<in> set ?obs. distinct (map fst ls) \<and> set (map fst ls) = {SE, EXPOSED}"
    by (auto simp add: SE_def EXPOSED_def)
  have reserved: "OBSERVATIONS \<notin> {SE, EXPOSED}"
    by (simp add: OBSERVATIONS_def SE_def EXPOSED_def)
  from observe_lockstep [OF nonempty same reserved, of idle_reset fresh_monitor]
  obtain ts where run: "run_observations ?obs (Monitor_reset idle_reset fresh_monitor) =
        (None, (Monitor_reset idle_reset fresh_monitor)\<lparr>timeSeries := Some ts\<rparr>)"
    and d: "dom ts = insert OBSERVATIONS {SE, EXPOSED}"
    and times: "ts OBSERVATIONS = Some (map (\<lambda>(t, ls). Time t) ?obs)"
    and sizes: "\<forall>l \<in> {SE, EXPOSED}. ts l = Some (map (\<lambda>(t, ls). Size (the (map_of ls l))) ?obs)"
    by blast
  from sizes have se: "ts SE = Some (map (\<lambda>(t, ls). Size (the (map_of ls SE))) ?obs)"
    by blast
  from sizes have ex: "ts EXPOSED = Some (map (\<lambda>(t, ls). Size (the (map_of ls EXPOSED))) ?obs)"
    by blast
  have "SI \<notin> dom ts"
    unfolding d by (simp add: SI_def OBSERVATIONS_def SE_def EXPOSED_def)
  then have si: "ts SI = None" by blast
  from se have se': "ts SE = Some [Size 2, Size 1]"
    by (simp add: SE_def EXPOSED_def)
  from ex have ex': "ts EXPOSED = Some [Size 1, Size 2]"
    by (simp add: SE_def EXPOSED_def)
  from times have times': "ts OBSERVATIONS = Some [Time 0, Time 1]" by simp
  from d have d': "dom ts = {OBSERVATIONS, SE, EXPOSED}" by simp
  from run d' times' se' ex' si show ?thesis by blast
qed

text \<open>
  C2, as the specification words it, fails: with \<^verbatim>\<open>time_delta\<close> equal to \<open>-1\<close> or to \<open>0\<close>,
  \<^verbatim>\<open>Monitor.build\<close> raises nothing and posts the repeating observation with that interval.
\<close>

theorem Monitor_build_nonpositive_delta_counterexample:
  "Monitor_build idle_build [DELTA \<mapsto> - 1] fresh_monitor =
     Inr (fresh_monitor\<lparr>base := \<lparr>repeating =
       [\<lparr>start = 0, interval = - 1, target = None, action = Observe\<rparr>]\<rparr>\<rparr>) \<and>
   Monitor_build idle_build [DELTA \<mapsto> 0] fresh_monitor =
     Inr (fresh_monitor\<lparr>base := \<lparr>repeating =
       [\<lparr>start = 0, interval = 0, target = None, action = Observe\<rparr>]\<rparr>\<rparr>)"
  by (simp add: Monitor_build_def idle_build_def param_def postRepeatingEvent_def fresh_monitor_def)

text \<open>
  C2, amended. Once the parent's build has returned, \<^verbatim>\<open>Monitor.build\<close> raises exactly when
  \<^verbatim>\<open>time_delta\<close> is missing from the parameters, and then it is the \<^verbatim>\<open>KeyError\<close> of that key;
  the value of \<^verbatim>\<open>time_delta\<close> is not examined, so a value \<open>\<le> 0\<close> is accepted.
\<close>

theorem Monitor_build_raises_iff_missing:
  assumes "super_build params (base self) = Inr p"
  shows "isl (Monitor_build super_build params self) = (params DELTA = None) \<and>
    (params DELTA = None \<longrightarrow> Monitor_build super_build params self = Inl (KeyError DELTA)) \<and>
    (\<forall>delta. params DELTA = Some delta \<longrightarrow>
       Monitor_build super_build params self =
         Inr (self\<lparr>base := postRepeatingEvent 0 delta None Observe p\<rparr>))"
  using assms by (simp add: Monitor_build_def param_def split: option.splits)

theorem Monitor_build_raises_iff_missing_witness:
  "\<not> isl (Monitor_build idle_build [DELTA \<mapsto> - 1] fresh_monitor) \<and>
   Monitor_build idle_build [DELTA \<mapsto> - 1] fresh_monitor =
     Inr (fresh_monitor\<lparr>base := postRepeatingEvent 0 (- 1) None Observe (base fresh_monitor)\<rparr>) \<and>
   isl (Monitor_build idle_build Map.empty fresh_monitor) \<and>
   Monitor_build idle_build Map.empty fresh_monitor = Inl (KeyError DELTA)"
proof -
  have parent: "idle_build params (base fresh_monitor) = Inr (base fresh_monitor)" for params
    by (simp add: idle_build_def)
  from Monitor_build_raises_iff_missing
      [where super_build = idle_build and params = "[DELTA \<mapsto> - 1]" and self = fresh_monitor,
       OF parent]
    Monitor_build_raises_iff_missing
      [where super_build = idle_build and params = Map.empty and self = fresh_monitor,
       OF parent]
  show ?thesis by simp
qed

text \<open>
  C8. For every parameter mapping that holds \<^verbatim>\<open>time_delta\<close>, \<^verbatim>\<open>Monitor.build\<close> (its parent's
  build having returned) posts exactly one repeating event, after those the parent left: it
  starts at time 0, recurs every \<^verbatim>\<open>time_delta\<close>, has no target element and invokes \<open>observe\<close>.
  Nothing else of the monitor changes. The event has a firing for every \<open>k\<close>, at time
  \<open>k * time_delta\<close>: it never expires.
\<close>

theorem Monitor_build_schedule:
  assumes "super_build params (base self) = Inr p"
    and "params DELTA = Some delta"
  shows "\<exists>s. Monitor_build super_build params self = Inr s \<and>
      repeating (base s) = repeating p @
        [\<lparr>start = 0, interval = delta, target = None, action = Observe\<rparr>] \<and>
      timeSeries s = timeSeries self \<and>
      (\<forall>k. firingTime (last (repeating (base s))) k = real k * delta)"
  using assms
  by (simp add: Monitor_build_def param_def postRepeatingEvent_def firingTime_def)

theorem Monitor_build_schedule_witness:
  "\<exists>s. Monitor_build idle_build example_params fresh_monitor = Inr s \<and>
      repeating (base s) = [\<lparr>start = 0, interval = 1, target = None, action = Observe\<rparr>] \<and>
      timeSeries s = None \<and>
      firingTime (last (repeating (base s))) 3 = 3"
proof -
  have parent: "idle_build example_params (base fresh_monitor) = Inr (base fresh_monitor)"
    by (simp add: idle_build_def)
  have delta: "example_params DELTA = Some 1"
    by (simp add: example_params_def SEIR_names DELTA_def)
  from Monitor_build_schedule
      [where super_build = idle_build and params = example_params and self = fresh_monitor,
       OF parent delta]
  obtain s where s: "Monitor_build idle_build example_params fresh_monitor = Inr s"
    "repeating (base s) = repeating (base fresh_monitor) @
        [\<lparr>start = 0, interval = 1, target = None, action = Observe\<rparr>]"
    "timeSeries s = timeSeries fresh_monitor"
    "\<forall>k. firingTime (last (repeating (base s))) k = real k * 1"
    by blast
  from s(4) have "firingTime (last (repeating (base s))) 3 = real 3 * 1" by blast
  with s(1-3) show ?thesis by (simp add: fresh_monitor_def)
qed

text \<open>
  C9, as the specification words it, fails: an entry that the parent's mapping holds under the
  time-series key is overwritten by the store.
\<close>

theorem Monitor_results_overwrites_counterexample:
  "clashing_results (base observed_monitor) TIMESERIES = Some (Other 7) \<and>
   Monitor_results clashing_results observed_monitor TIMESERIES =
     Some (Series (timeSeries observed_monitor)) \<and>
   Monitor_results clashing_results observed_monitor TIMESERIES \<noteq>
     clashing_results (base observed_monitor) TIMESERIES \<and>
   \<not> clashing_results (base observed_monitor) \<subseteq>\<^sub>m
     Monitor_results clashing_results observed_monitor"
proof -
  have parent: "clashing_results (base observed_monitor) TIMESERIES = Some (Other 7)"
    by (simp add: clashing_results_def TIMESERIES_def)
  have mine: "Monitor_results clashing_results observed_monitor TIMESERIES =
      Some (Series (timeSeries observed_monitor))"
    by (simp add: Monitor_results_def)
  from parent mine
  have differ: "Monitor_results clashing_results observed_monitor TIMESERIES \<noteq>
      clashing_results (base observed_monitor) TIMESERIES"
    by simp
  from parent have "TIMESERIES \<in> dom (clashing_results (base observed_monitor))"
    by blast
  with differ have "\<not> clashing_results (base observed_monitor) \<subseteq>\<^sub>m
      Monitor_results clashing_results observed_monitor"
    unfolding map_le_def by metis
  with parent mine differ show ?thesis by blast
qed

text \<open>
  C9, amended. \<^verbatim>\<open>Monitor.results\<close> returns the parent's mapping with the time-series key bound to
  the accumulated store: every entry of the parent under another key is unchanged, the keys are
  the parent's plus the time-series key, and what the parent bound to the time-series key, if
  anything, is replaced by the store.
\<close>

theorem Monitor_results_extends_parent:
  "Monitor_results super_results self TIMESERIES = Some (Series (timeSeries self)) \<and>
   (\<forall>k. k \<noteq> TIMESERIES \<longrightarrow>
      Monitor_results super_results self k = super_results (base self) k) \<and>
   dom (Monitor_results super_results self) = insert TIMESERIES (dom (super_results (base self)))"
  by (auto simp add: Monitor_results_def)

theorem Monitor_results_extends_parent_witness:
  "timeSeries observed_monitor = Some
     [OBSERVATIONS \<mapsto> [Time 0, Time 1], SE \<mapsto> [Size 2, Size 1], EXPOSED \<mapsto> [Size 1, Size 2]] \<and>
   Monitor_results parent_results observed_monitor TIMESERIES =
     Some (Series (timeSeries observed_monitor)) \<and>
   Monitor_results parent_results observed_monitor ''events'' = Some (Other 0) \<and>
   dom (Monitor_results parent_results observed_monitor) = {TIMESERIES, ''events''}"
proof -
  note r = Monitor_results_extends_parent [of parent_results observed_monitor]
  have store: "timeSeries observed_monitor = Some
      [OBSERVATIONS \<mapsto> [Time 0, Time 1], SE \<mapsto> [Size 2, Size 1], EXPOSED \<mapsto> [Size 1, Size 2]]"
    by (simp add: observed_monitor_def observe_def Monitor_reset_def idle_reset_def
        fresh_monitor_def OBSERVATIONS_def SE_def EXPOSED_def fun_upd_twist)
  have empty: "base observed_monitor = \<lparr>repeating = []\<rparr>"
    by (simp add: observed_monitor_def observe_def Monitor_reset_def idle_reset_def
        fresh_monitor_def OBSERVATIONS_def SE_def EXPOSED_def)
  have other: "''events'' \<noteq> TIMESERIES"
    by (simp add: TIMESERIES_def)
  from r other have ev: "Monitor_results parent_results observed_monitor ''events'' =
      parent_results (base observed_monitor) ''events''" by blast
  from r have ts: "Monitor_results parent_results observed_monitor TIMESERIES =
      Some (Series (timeSeries observed_monitor))" by blast
  from r have d: "dom (Monitor_results parent_results observed_monitor) =
      insert TIMESERIES (dom (parent_results (base observed_monitor)))" by blast
  from store ev ts d empty show ?thesis
    by (simp add: parent_results_def)
qed

text \<open>
  C10. When \<^verbatim>\<open>Monitor.results\<close> is called after \<^verbatim>\<open>reset\<close> and before any \<^verbatim>\<open>observe\<close>, the
  time-series key is bound to \<^verbatim>\<open>None\<close>, not to an empty dictionary of sequences.
\<close>

theorem Monitor_results_before_observe:
  "Monitor_results super_results (Monitor_reset super_reset self) TIMESERIES = Some (Series None) \<and>
   Monitor_results super_results (Monitor_reset super_reset self) TIMESERIES \<noteq>
     Some (Series (Some Map.empty))"
  by (simp add: Monitor_results_def Monitor_reset_def)

end
